theory Spec2Isabelle
  imports Main
begin

section \<open>The logger interface\<close>

text \<open>
  Each client and the queue own a \<open>Logger\<close> with the three methods \<open>info\<close>, \<open>warn\<close> and
  \<open>error\<close>. A logger is modelled by the list of the lines written to it, oldest first.
  A line keeps the level and the data interpolated into the message; the rendering of
  the text (timestamps, the five-character token suffix, ISO dates) is not modelled.
\<close>

datatype level = Info | Warn | Error

datatype message =
    QueueStart
  | QueueStop
  | QueueErrorCountTooBig
  | QueueError string
  | QueueRetry string
  | QueueAbort string
  | ClientQuery string
  | ClientError string
  | ClientRateLimit int int
  | ClientHeadersNotFound
  | ClientLimitExceededUntil int int
  | ClientLimitExceededStored int
  | ClientResetInPast
  | ClientPause int int int
  | ClientPauseUntil int
  | ClientResume

type_synonym log = "(level \<times> message) list"

section \<open>The transport (axios) interface\<close>

text \<open>
  Axios hands response headers over as strings, and the three headers the client reads
  (\<open>x-ratelimit-remaining\<close>, \<open>x-ratelimit-reset\<close>, \<open>retry-after\<close>) are sent by the
  GitHub API as decimal integers. A header map therefore gives, for a header that is
  present, the integer that \<open>Number.parseInt\<close> reads from its value. The value of a
  present header is a non-empty string and so truthy in JavaScript, also when it reads
  \<open>0\<close>; an absent header is \<open>undefined\<close>, hence falsy. Times are epoch milliseconds
  and all numbers are integers; times are taken to lie in the range that a \<open>Date\<close> can
  hold, so that the log lines that render a time as an ISO date can be written. The
  status of a response may be missing, as in the objects that the tests reject with.
\<close>

type_synonym headers = "string \<rightharpoonup> int"

record response =
  status :: "int option"
  headers :: headers
  data :: string

record axios_error =
  message :: string
  response :: "response option"

text \<open>
  The optional \<open>params\<close> bag of a request with its properties \<open>method\<close>, \<open>headers\<close>
  and \<open>body\<close>; the fields carry the suffix \<open>_p\<close>.
\<close>

record params =
  method_p :: "string option"
  headers_p :: "string \<rightharpoonup> string"
  body_p :: "string option"

text \<open>A JavaScript argument that may be left out (\<open>undefined\<close>) or be \<open>null\<close>.\<close>

datatype 'a jsarg = Undefined | Null | Obj 'a

datatype js_error = TypeError

text \<open>The configuration object passed to \<open>axios(...)\<close>.\<close>

record axios_config =
  c_url :: string
  c_method :: string
  c_headers :: "string \<rightharpoonup> string"
  c_data :: "string option"

text \<open>How the promise returned by \<open>request\<close> settles.\<close>

datatype settled = Fulfilled response | Rejected axios_error

section \<open>GitHubApiClient\<close>

text \<open>
  The fields of the class, followed by the part of the environment that belongs to one
  client: \<open>timeouts\<close> are the pending \<open>setTimeout\<close> entries created by this client
  (handle and delay), \<open>nextTimeout\<close> is the next unused handle, and \<open>pauseCalls\<close>
  records the argument of every call of \<open>pause\<close>, as the spy of the test suite does.
\<close>

record client =
  token :: string
  authorized :: bool
  busy :: bool
  remainingRequests :: int
  resetAt :: int
  safetyRemainingRequestCount :: int
  tokenResumeBufferTime :: int
  resumeTimer :: "nat option"
  logger :: log
  timeouts :: "(nat \<times> int) list"
  nextTimeout :: nat
  pauseCalls :: "int list"

definition new_client :: "string \<Rightarrow> int \<Rightarrow> int \<Rightarrow> client" where
  "new_client tok safety buffer =
     \<lparr> token = tok, authorized = True, busy = False, remainingRequests = 0, resetAt = 0,
       safetyRemainingRequestCount = safety, tokenResumeBufferTime = buffer,
       resumeTimer = None, logger = [], timeouts = [], nextTimeout = 0, pauseCalls = [] \<rparr>"

text \<open>The constructor's defaults: a safety margin of 5 requests, a buffer of 2000 ms.\<close>

definition default_client :: "string \<Rightarrow> client" where
  "default_client tok = new_client tok 5 2000"

definition getToken :: "client \<Rightarrow> string" where
  "getToken c = drop (length (token c) - 5) (token c)"

definition isAuthorized :: "client \<Rightarrow> bool" where
  "isAuthorized c = authorized c"

definition isBusy :: "client \<Rightarrow> bool" where
  "isBusy c = busy c"

definition log_line :: "level \<Rightarrow> message \<Rightarrow> client \<Rightarrow> client" where
  "log_line l m c = c\<lparr>logger := logger c @ [(l, m)]\<rparr>"

definition clearTimeout :: "nat \<Rightarrow> client \<Rightarrow> client" where
  "clearTimeout h c = c\<lparr>timeouts := filter (\<lambda>t. fst t \<noteq> h) (timeouts c)\<rparr>"

definition setTimeout :: "int \<Rightarrow> client \<Rightarrow> nat \<times> client" where
  "setTimeout delay c =
     (nextTimeout c,
      c\<lparr>timeouts := timeouts c @ [(nextTimeout c, delay)], nextTimeout := Suc (nextTimeout c)\<rparr>)"

text \<open>\<open>_resume\<close>.\<close>

definition resume :: "client \<Rightarrow> client" where
  "resume c = c\<lparr>authorized := True, resumeTimer := None\<rparr>"

text \<open>
  \<open>pause(resetAt)\<close>; \<open>now\<close> is the value of \<open>Date.now()\<close>, which is read as one value
  during one call or handler. The division by 1000 and 60 is \<open>Math.floor\<close> on a
  positive delay.
\<close>

definition pause :: "int \<Rightarrow> int \<Rightarrow> client \<Rightarrow> client" where
  "pause now t c =
     (let c1 = c\<lparr>authorized := False, pauseCalls := pauseCalls c @ [t]\<rparr>;
          c2 = (case resumeTimer c1 of
                  None \<Rightarrow> c1
                | Some h \<Rightarrow> (clearTimeout h c1)\<lparr>resumeTimer := None\<rparr>);
          delay = t - now + tokenResumeBufferTime c2
      in if delay \<le> 0
         then log_line Info ClientResume (resume (log_line Info ClientResetInPast c2))
         else
           let delaySeconds = delay div 1000;
               minutes = delaySeconds div 60;
               seconds = delaySeconds mod 60;
               c3 = log_line Info (ClientPause t minutes seconds) c2;
               (h, c4) = setTimeout delay c3
           in c4\<lparr>resumeTimer := Some h\<rparr>)"



text \<open>\<open>_refresh(headers)\<close>; the argument is \<open>None\<close> when the caller passes \<open>undefined\<close>.\<close>

definition refresh :: "int \<Rightarrow> headers option \<Rightarrow> client \<Rightarrow> client" where
  "refresh now hs c =
     (case hs of
        None \<Rightarrow> log_line Warn ClientHeadersNotFound c
      | Some h \<Rightarrow>
          (case (h ''x-ratelimit-remaining'', h ''x-ratelimit-reset'') of
             (Some remaining, Some reset) \<Rightarrow>
               (let c1 = c\<lparr>remainingRequests := remaining\<rparr>;
                    c2 = c1\<lparr>resetAt := reset * 1000\<rparr>;
                    c3 = (if remainingRequests c2 - safetyRemainingRequestCount c2 \<le> 0
                          then pause now (resetAt c2) c2 else c2)
                in log_line Info (ClientRateLimit (remainingRequests c3) (resetAt c3)) c3)
           | _ \<Rightarrow> log_line Warn ClientHeadersNotFound c))"

text \<open>
  \<open>request(url, params = {})\<close> in three parts: the synchronous call, which builds the
  configuration and calls axios, and the two handlers attached to the promise that axios
  returns. The default value replaces an argument that is \<open>undefined\<close>, not one that
  is \<open>null\<close>: reading \<open>params.method\<close> of \<open>null\<close> throws a \<open>TypeError\<close>, after
  \<open>busy\<close> has been set.
\<close>

definition method_or_get :: "string option \<Rightarrow> string" where
  "method_or_get m = (case m of None \<Rightarrow> ''GET'' | Some s \<Rightarrow> if s = [] then ''GET'' else s)"

definition body_or_null :: "string option \<Rightarrow> string option" where
  "body_or_null b = (case b of None \<Rightarrow> None | Some s \<Rightarrow> if s = [] then None else Some s)"

definition empty_params :: params where
  "empty_params = \<lparr> method_p = None, headers_p = Map.empty, body_p = None \<rparr>"

definition build_config :: "string \<Rightarrow> params \<Rightarrow> client \<Rightarrow> axios_config" where
  "build_config u p c =
     \<lparr> c_url = u,
       c_method = method_or_get (method_p p),
       c_headers = [''Authorization'' \<mapsto> ''Bearer '' @ token c,
                    ''Accept'' \<mapsto> ''application/vnd.github.v3+json''] ++ headers_p p,
       c_data = body_or_null (body_p p) \<rparr>"

definition request :: "string \<Rightarrow> params jsarg \<Rightarrow> client \<Rightarrow> (js_error + axios_config) \<times> client" where
  "request u p c =
     (let c1 = c\<lparr>busy := True\<rparr>
      in case p of
           Undefined \<Rightarrow> (Inr (build_config u empty_params c1), c1)
         | Null \<Rightarrow> (Inl TypeError, c1)
         | Obj ps \<Rightarrow> (Inr (build_config u ps c1), c1))"

definition request_then :: "int \<Rightarrow> string \<Rightarrow> response \<Rightarrow> client \<Rightarrow> settled \<times> client" where
  "request_then now u r c =
     (let c1 = refresh now (Some (headers r)) c;
          c2 = c1\<lparr>busy := False\<rparr>;
          c3 = log_line Info (ClientQuery u) c2
      in (Fulfilled r, c3))"

definition request_catch :: "int \<Rightarrow> string \<Rightarrow> axios_error \<Rightarrow> client \<Rightarrow> settled \<times> client" where
  "request_catch now u e c =
     (let c1 = refresh now (map_option headers (response e)) c;
          c2 = (case response e of
                  None \<Rightarrow> c1
                | Some r \<Rightarrow>
                    (case status r of
                       None \<Rightarrow> c1
                     | Some st \<Rightarrow>
                         if st = 403 \<or> st = 429
                         then (case headers r ''retry-after'' of
                                 Some retryAfter \<Rightarrow>
                                   (let resetTime = now + retryAfter * 1000
                                    in pause now resetTime
                                         (log_line Warn (ClientLimitExceededUntil st resetTime) c1))
                               | None \<Rightarrow>
                                   if resetAt c1 > 0
                                   then pause now (resetAt c1)
                                          (log_line Warn (ClientLimitExceededStored st) c1)
                                   else c1)
                         else c1));
          c3 = c2\<lparr>busy := False\<rparr>;
          c4 = log_line Info (ClientQuery u) c3;
          c5 = log_line Error (ClientError (message e)) c4
      in (Rejected e, c5))"

subsection \<open>The older variant of the client\<close>

text \<open>
  The repository holds an older variant of the client as well. Its \<open>pause\<close> keeps no
  handle and cancels nothing, its \<open>_resume\<close> only sets \<open>authorized\<close>, and its
  \<open>_refresh\<close> pauses for one minute when the rate-limit headers are missing.
\<close>

definition resume_old :: "client \<Rightarrow> client" where
  "resume_old c = c\<lparr>authorized := True\<rparr>"

definition pause_old :: "int \<Rightarrow> int \<Rightarrow> client \<Rightarrow> client" where
  "pause_old now t c =
     (let c1 = c\<lparr>authorized := False, pauseCalls := pauseCalls c @ [t]\<rparr>;
          c2 = log_line Info (ClientPauseUntil t) c1
      in snd (setTimeout (t - now + tokenResumeBufferTime c2) c2))"

definition fire_old :: "nat \<Rightarrow> client \<Rightarrow> client option" where
  "fire_old h c =
     (if h \<in> fst ` set (timeouts c)
      then Some (log_line Info ClientResume (resume_old (clearTimeout h c))) else None)"

definition refresh_old :: "int \<Rightarrow> headers option \<Rightarrow> client \<Rightarrow> client" where
  "refresh_old now hs c =
     (case hs of
        None \<Rightarrow> pause_old now (now + 1000 * 60) c
      | Some h \<Rightarrow>
          (case (h ''x-ratelimit-remaining'', h ''x-ratelimit-reset'') of
             (Some remaining, Some reset) \<Rightarrow>
               (let c1 = c\<lparr>remainingRequests := remaining\<rparr>;
                    c2 = c1\<lparr>resetAt := reset * 1000\<rparr>;
                    c3 = (if remainingRequests c2 - safetyRemainingRequestCount c2 \<le> 0
                          then pause_old now (resetAt c2) c2 else c2)
                in log_line Info (ClientRateLimit (remainingRequests c3) (resetAt c3)) c3)
           | _ \<Rightarrow> pause_old now (now + 1000 * 60) c))"

subsection \<open>The states a client can reach\<close>


section \<open>GitHubApiRequest\<close>

text \<open>
  The callback is a function of the result; it returns \<open>None\<close> when it returns
  normally and the message of the error when it throws.
\<close>

record request =
  url :: string
  params :: params
  callback :: "response \<Rightarrow> string option"

definition new_request :: "string \<Rightarrow> request" where
  "new_request u = \<lparr> url = u, params = empty_params, callback = (\<lambda>_. None) \<rparr>"

definition getUrl :: "request \<Rightarrow> string" where
  "getUrl r = url r"

definition getParams :: "request \<Rightarrow> params" where
  "getParams r = params r"

definition runCallback :: "request \<Rightarrow> response \<Rightarrow> string option" where
  "runCallback r res = callback r res"

section \<open>GitHubApiQueue\<close>

text \<open>
  The fields of the class, followed by the queue's part of the environment:
  \<open>pendingTicks\<close> are the delays of the pending \<open>setTimeout(queue, delay)\<close> entries and
  \<open>inflight\<close> are the dispatched requests whose promise has not settled, each with
  the index of its client. \<open>errorUrls\<close> is a JavaScript object used as a dictionary from
  URL to count; it is modelled by the list of its own properties in insertion order.
  The URL of a request is taken not to be the name of a property that every object
  inherits (such as \<open>constructor\<close>), so that reading a URL that has not failed yet
  gives \<open>undefined\<close>.
\<close>

record api_queue =
  clients :: "client list"
  queries :: "request list"
  isStopped :: bool
  errorCount :: int
  errorUrls :: "(string \<times> int) list"
  maxErrorCountPerRequest :: int
  maxErrorCountInTotal :: int
  qlogger :: log
  pendingTicks :: "int list"
  inflight :: "(nat \<times> request) list"

definition new_queue :: "client list \<Rightarrow> int \<Rightarrow> int \<Rightarrow> api_queue" where
  "new_queue cs maxPerRequest maxInTotal =
     \<lparr> clients = cs, queries = [], isStopped = False, errorCount = 0, errorUrls = [],
       maxErrorCountPerRequest = maxPerRequest, maxErrorCountInTotal = maxInTotal,
       qlogger = [], pendingTicks = [], inflight = [] \<rparr>"

definition default_queue :: "client list \<Rightarrow> api_queue" where
  "default_queue cs = new_queue cs 5 (5 * 1000)"

definition qlog :: "level \<Rightarrow> message \<Rightarrow> api_queue \<Rightarrow> api_queue" where
  "qlog l m q = q\<lparr>qlogger := qlogger q @ [(l, m)]\<rparr>"

definition getClients :: "api_queue \<Rightarrow> client list" where
  "getClients q = clients q"

definition getQueueLength :: "api_queue \<Rightarrow> nat" where
  "getQueueLength q = length (queries q)"

text \<open>
  \<open>getRequestFailCount\<close> reduces over \<open>Object.keys(this._errorUrls)\<close>; reading a
  property that is missing gives \<open>undefined\<close>, which is not \<open>\<ge>\<close> any number.
\<close>

definition getRequestFailCount :: "api_queue \<Rightarrow> int" where
  "getRequestFailCount q =
     foldl (\<lambda>acc u. case map_of (errorUrls q) u of
                       Some n \<Rightarrow> if n \<ge> maxErrorCountPerRequest q then acc + 1 else acc
                     | None \<Rightarrow> acc)
           0 (map fst (errorUrls q))"

definition push :: "request list \<Rightarrow> api_queue \<Rightarrow> api_queue" where
  "push rs q = q\<lparr>queries := queries q @ rs\<rparr>"

definition unshift :: "request list \<Rightarrow> api_queue \<Rightarrow> api_queue" where
  "unshift rs q = q\<lparr>queries := rs @ queries q\<rparr>"

text \<open>The clients that pass the filter of a tick, by their index in \<open>clients\<close>.\<close>

definition availableClients :: "api_queue \<Rightarrow> nat list" where
  "availableClients q =
     filter (\<lambda>i. isAuthorized (clients q ! i) \<and> \<not> isBusy (clients q ! i))
            [0 ..< length (clients q)]"

text \<open>
  The \<open>for\<close> loop of a tick over the available clients: \<open>pop\<close> takes the last element
  of \<open>queries\<close>. The parameters of a request are an object, so the call of
  \<open>client.request\<close> returns its promise, which joins \<open>inflight\<close>.
\<close>

fun dispatch :: "nat list \<Rightarrow> api_queue \<Rightarrow> api_queue" where
  "dispatch [] q = q"
| "dispatch (i # is) q =
     (if queries q = [] then q
      else
        let r = last (queries q);
            q1 = q\<lparr>queries := butlast (queries q)\<rparr>;
            c' = snd (request (getUrl r) (Obj (getParams r)) (clients q1 ! i));
            q2 = q1\<lparr>clients := (clients q1)[i := c'], inflight := inflight q1 @ [(i, r)]\<rparr>
        in dispatch is q2)"

text \<open>The closure \<open>queue\<close> of \<open>_process\<close>: one tick of the polling loop.\<close>

definition queue_tick :: "api_queue \<Rightarrow> api_queue" where
  "queue_tick q =
     (if isStopped q then q
      else if errorCount q \<ge> maxErrorCountInTotal q
      then qlog Error QueueErrorCountTooBig q
      else if queries q = [] \<or> availableClients q = []
      then q\<lparr>pendingTicks := pendingTicks q @ [1000]\<rparr>
      else dispatch (availableClients q) q)"

definition process :: "api_queue \<Rightarrow> api_queue" where
  "process q = queue_tick q"

definition start :: "api_queue \<Rightarrow> api_queue" where
  "start q = process (qlog Info QueueStart q)"

definition stop :: "api_queue \<Rightarrow> api_queue" where
  "stop q = (qlog Info QueueStop q)\<lparr>isStopped := True\<rparr>"

text \<open>A pending tick fires: it leaves the pending entries and the closure runs.\<close>

definition fire_tick :: "int \<Rightarrow> api_queue \<Rightarrow> api_queue option" where
  "fire_tick d q =
     (if d \<in> set (pendingTicks q)
      then Some (queue_tick (q\<lparr>pendingTicks := remove1 d (pendingTicks q)\<rparr>))
      else None)"

text \<open>
  Assignment to a property of \<open>errorUrls\<close>: an own property keeps its place, a new one
  is added at the end.
\<close>

fun assign :: "string \<Rightarrow> int \<Rightarrow> (string \<times> int) list \<Rightarrow> (string \<times> int) list" where
  "assign k v [] = [(k, v)]"
| "assign k v ((k', v') # kvs) =
     (if k = k' then (k, v) # kvs else (k', v') # assign k v kvs)"

text \<open>
  The handlers that a tick attaches to the promise of a dispatched request \<open>r\<close>:
  \<open>on_catch\<close> is the \<open>.catch\<close> handler, which gets the error of the client or the error
  thrown by the callback and reads its message; \<open>on_then\<close> is the \<open>.then\<close> handler;
  \<open>on_finally\<close> schedules the next tick.
\<close>

definition on_catch :: "string \<Rightarrow> request \<Rightarrow> api_queue \<Rightarrow> api_queue" where
  "on_catch msg r q =
     (let q1 = qlog Error (QueueError msg) q;
          q2 = q1\<lparr>errorCount := errorCount q1 + 1\<rparr>;
          q3 = (case map_of (errorUrls q2) (getUrl r) of
                  None \<Rightarrow> q2\<lparr>errorUrls := assign (getUrl r) 1 (errorUrls q2)\<rparr>
                | Some n \<Rightarrow>
                    if n = 0 then q2\<lparr>errorUrls := assign (getUrl r) 1 (errorUrls q2)\<rparr>
                    else q2\<lparr>errorUrls := assign (getUrl r) (n + 1) (errorUrls q2)\<rparr>)
      in case map_of (errorUrls q3) (getUrl r) of
           Some n \<Rightarrow>
             if n < maxErrorCountPerRequest q3
             then unshift [r] (qlog Info (QueueRetry (getUrl r)) q3)
             else qlog Error (QueueAbort (getUrl r)) q3
         | None \<Rightarrow> qlog Error (QueueAbort (getUrl r)) q3)"

definition on_then :: "response \<Rightarrow> request \<Rightarrow> api_queue \<Rightarrow> api_queue" where
  "on_then res r q =
     (case runCallback r res of
        None \<Rightarrow> q
      | Some msg \<Rightarrow> on_catch msg r q)"

definition on_finally :: "api_queue \<Rightarrow> api_queue" where
  "on_finally q = q\<lparr>pendingTicks := pendingTicks q @ [0]\<rparr>"

text \<open>
  The transport settles the request \<open>r\<close> that client \<open>i\<close> has in flight: the handler of
  the client runs, then the handlers of the queue.
\<close>

definition complete :: "int \<Rightarrow> nat \<Rightarrow> request \<Rightarrow> settled \<Rightarrow> api_queue \<Rightarrow> api_queue" where
  "complete now i r outcome q =
     (let (res, c') = (case outcome of
                         Fulfilled resp \<Rightarrow> request_then now (getUrl r) resp (clients q ! i)
                       | Rejected e \<Rightarrow> request_catch now (getUrl r) e (clients q ! i));
          q1 = q\<lparr>clients := (clients q)[i := c'], inflight := remove1 (i, r) (inflight q)\<rparr>;
          q2 = (case res of
                  Fulfilled resp \<Rightarrow> on_then resp r q1
                | Rejected e \<Rightarrow> on_catch (message e) r q1)
      in on_finally q2)"

text \<open>
  One step of a queue: a call of one of its methods, the firing of a pending tick, or
  the settling of a request in flight. The handlers of one request run without
  interruption; the handlers of another promise can only run before or after them,
  which is another step. The clients change on their own as well (a resume timer fires,
  the user calls \<open>pause\<close>), and the tests put arbitrary objects in their place, so any
  change of the clients is a step.
\<close>

inductive queue_step :: "api_queue \<Rightarrow> api_queue \<Rightarrow> bool" where
  s_push: "queue_step q (push rs q)"
| s_unshift: "queue_step q (unshift rs q)"
| s_start: "queue_step q (start q)"
| s_stop: "queue_step q (stop q)"
| s_tick: "fire_tick d q = Some q' \<Longrightarrow> queue_step q q'"
| s_complete: "(i, r) \<in> set (inflight q) \<Longrightarrow> queue_step q (complete now i r outcome q)"
| s_clients: "length cs = length (clients q) \<Longrightarrow> queue_step q (q\<lparr>clients := cs\<rparr>)"

text \<open>The states a queue can reach from its constructor.\<close>

inductive reachable :: "api_queue \<Rightarrow> bool" where
  r_new: "reachable (new_queue cs maxPerRequest maxInTotal)"
| r_step: "reachable q \<Longrightarrow> queue_step q q' \<Longrightarrow> reachable q'"

text \<open>
  The requests that a tick hands to clients, in the order of the calls of
  \<open>client.request\<close>: the entries that the tick adds to \<open>inflight\<close>.
\<close>

definition dispatched_by :: "api_queue \<Rightarrow> api_queue \<Rightarrow> request list" where
  "dispatched_by q q' = map snd (drop (length (inflight q)) (inflight q'))"

text \<open>
  The number of failures recorded for a URL: the value of its property in \<open>errorUrls\<close>,
  and 0 for a URL that has no property yet.
\<close>

definition errorsByUrl :: "api_queue \<Rightarrow> string \<Rightarrow> int" where
  "errorsByUrl q u = (case map_of (errorUrls q) u of None \<Rightarrow> 0 | Some n \<Rightarrow> n)"

section \<open>Invariants\<close>

text \<open>
  A client holds the handle of its pending resume timeout, and no other timeout of the
  client is pending; every handle in use is below the next unused one.
\<close>

definition client_inv :: "client \<Rightarrow> bool" where
  "client_inv c =
     ((case resumeTimer c of
         None \<Rightarrow> timeouts c = []
       | Some h \<Rightarrow> map fst (timeouts c) = [h])
      \<and> (\<forall>t \<in> set (timeouts c). fst t < nextTimeout c))"

text \<open>The error counters of a queue agree: the total is the sum over the URLs.\<close>

definition counters_inv :: "api_queue \<Rightarrow> bool" where
  "counters_inv q =
     (distinct (map fst (errorUrls q)) \<and> errorCount q = sum_list (map snd (errorUrls q)))"

section \<open>Example objects\<close>

text \<open>The objects of the test suite, used to evaluate the theorems on concrete inputs.\<close>

definition example_client :: client where
  "example_client = new_client ''github-token-12345'' 5 2000"

definition request_a :: request where
  "request_a = new_request ''https://api.github.com/search/repositories?q=stars:1''"

definition request_b :: request where
  "request_b = new_request ''https://api.github.com/search/repositories?q=stars:2''"

definition request_a_post :: request where
  "request_a_post = request_a\<lparr>params := empty_params\<lparr>method_p := Some ''POST''\<rparr>\<rparr>"

definition example_queue :: api_queue where
  "example_queue = new_queue [example_client] 5 5000"

definition network_error :: axios_error where
  "network_error = \<lparr> message = ''Some network error'', response = None \<rparr>"


text \<open>
  A queue with a total budget of one error after its only request has failed once: the
  request is back in the backlog, the client is free, and a tick has reported the abort.
\<close>

definition exhausted_queue :: api_queue where
  "exhausted_queue =
     queue_tick (complete 0 0 request_a (Rejected network_error)
                   (start (push [request_a] (new_queue [example_client] 5 1))))"

lemmas example_defs = example_client_def request_a_def request_b_def example_queue_def
  new_client_def new_request_def new_queue_def

section \<open>The client: pause, resume and the rate-limit headers\<close>

lemma log_line_fields [simp]:
  "authorized (log_line l m c) = authorized c"
  "busy (log_line l m c) = busy c"
  "remainingRequests (log_line l m c) = remainingRequests c"
  "resetAt (log_line l m c) = resetAt c"
  "safetyRemainingRequestCount (log_line l m c) = safetyRemainingRequestCount c"
  "tokenResumeBufferTime (log_line l m c) = tokenResumeBufferTime c"
  "resumeTimer (log_line l m c) = resumeTimer c"
  "timeouts (log_line l m c) = timeouts c"
  "nextTimeout (log_line l m c) = nextTimeout c"
  "pauseCalls (log_line l m c) = pauseCalls c"
  "logger (log_line l m c) = logger c @ [(l, m)]"
  by (simp_all add: log_line_def)

text \<open>The two branches of \<open>pause\<close>, each as one update of the client.\<close>

lemma pause_past:
  "t - now + tokenResumeBufferTime c \<le> 0 \<Longrightarrow>
   pause now t c =
     c\<lparr>authorized := True, resumeTimer := None,
       pauseCalls := pauseCalls c @ [t],
       timeouts := (case resumeTimer c of None \<Rightarrow> timeouts c
                    | Some h \<Rightarrow> filter (\<lambda>x. fst x \<noteq> h) (timeouts c)),
       logger := logger c @ [(Info, ClientResetInPast), (Info, ClientResume)]\<rparr>"
  by (simp add: pause_def Let_def resume_def clearTimeout_def log_line_def split: option.splits)

lemma pause_future:
  "0 < t - now + tokenResumeBufferTime c \<Longrightarrow>
   pause now t c =
     c\<lparr>authorized := False, resumeTimer := Some (nextTimeout c),
       pauseCalls := pauseCalls c @ [t],
       timeouts := (case resumeTimer c of None \<Rightarrow> timeouts c
                    | Some h \<Rightarrow> filter (\<lambda>x. fst x \<noteq> h) (timeouts c))
                   @ [(nextTimeout c, t - now + tokenResumeBufferTime c)],
       nextTimeout := Suc (nextTimeout c),
       logger := logger c @ [(Info, ClientPause t ((t - now + tokenResumeBufferTime c) div 1000 div 60)
                                ((t - now + tokenResumeBufferTime c) div 1000 mod 60))]\<rparr>"
  by (simp add: pause_def Let_def resume_def clearTimeout_def setTimeout_def log_line_def
           split: option.splits)

lemma pause_frame [simp]:
  "remainingRequests (pause now t c) = remainingRequests c"
  "resetAt (pause now t c) = resetAt c"
  "safetyRemainingRequestCount (pause now t c) = safetyRemainingRequestCount c"
  "tokenResumeBufferTime (pause now t c) = tokenResumeBufferTime c"
  "busy (pause now t c) = busy c"
  "token (pause now t c) = token c"
  "pauseCalls (pause now t c) = pauseCalls c @ [t]"
  by (cases "t - now + tokenResumeBufferTime c \<le> 0"; simp add: pause_past pause_future)+


lemma refresh_missing:
  "hs = None \<or> (\<exists>h. hs = Some h \<and>
      (h ''x-ratelimit-remaining'' = None \<or> h ''x-ratelimit-reset'' = None)) \<Longrightarrow>
   refresh now hs c = log_line Warn ClientHeadersNotFound c"
  by (auto simp: refresh_def split: option.splits)

lemma refresh_present:
  "h ''x-ratelimit-remaining'' = Some remaining \<Longrightarrow> h ''x-ratelimit-reset'' = Some reset \<Longrightarrow>
   refresh now (Some h) c =
     (let c2 = c\<lparr>remainingRequests := remaining, resetAt := reset * 1000\<rparr>;
          c3 = (if remaining - safetyRemainingRequestCount c \<le> 0
                then pause now (reset * 1000) c2 else c2)
      in log_line Info (ClientRateLimit remaining (reset * 1000)) c3)"
  by (simp add: refresh_def Let_def)

lemma client_inv_update [simp]:
  "client_inv (c\<lparr>remainingRequests := a\<rparr>) = client_inv c"
  "client_inv (c\<lparr>resetAt := b\<rparr>) = client_inv c"
  "client_inv (c\<lparr>busy := d\<rparr>) = client_inv c"
  "client_inv (log_line l m c) = client_inv c"
  by (simp_all add: client_inv_def split: option.splits)












text \<open>
  The older variant does not resume at once: after \<open>pause\<close> of a time in the past the
  client is not authorized until the timeout fires.
\<close>

lemma pause_old_past_not_authorized:
  "\<not> isAuthorized (pause_old 10000 1000 example_client)"
  by (simp add: pause_old_def Let_def setTimeout_def isAuthorized_def log_line_def example_defs)



text \<open>
  Claim C4. When the headers of a response hold both \<open>x-ratelimit-remaining\<close> and
  \<open>x-ratelimit-reset\<close>, \<open>_refresh\<close> sets \<open>remainingRequests\<close> to the remaining count and
  \<open>resetAt\<close> to the reset time times 1000, and it calls \<open>pause(resetAt)\<close> exactly when
  \<open>remainingRequests - safetyMargin \<le> 0\<close>, the value 0 included.
\<close>

theorem refresh_sets_limits_and_pauses:
  assumes "h ''x-ratelimit-remaining'' = Some remaining"
      and "h ''x-ratelimit-reset'' = Some reset"
  shows "remainingRequests (refresh now (Some h) c) = remaining
       \<and> resetAt (refresh now (Some h) c) = reset * 1000
       \<and> pauseCalls (refresh now (Some h) c) =
           (if remaining - safetyRemainingRequestCount c \<le> 0
            then pauseCalls c @ [reset * 1000] else pauseCalls c)"
  using assms by (simp add: refresh_present Let_def)

theorem refresh_sets_limits_and_pauses_witness:
  "[''x-ratelimit-remaining'' \<mapsto> 5, ''x-ratelimit-reset'' \<mapsto> (1700003600::int)]
      ''x-ratelimit-remaining'' = Some 5
   \<and> [''x-ratelimit-remaining'' \<mapsto> 5, ''x-ratelimit-reset'' \<mapsto> (1700003600::int)]
      ''x-ratelimit-reset'' = Some 1700003600
   \<and> remainingRequests (refresh 1700000000000
        (Some [''x-ratelimit-remaining'' \<mapsto> 5, ''x-ratelimit-reset'' \<mapsto> 1700003600])
        example_client) = 5
   \<and> resetAt (refresh 1700000000000
        (Some [''x-ratelimit-remaining'' \<mapsto> 5, ''x-ratelimit-reset'' \<mapsto> 1700003600])
        example_client) = 1700003600000
   \<and> pauseCalls (refresh 1700000000000
        (Some [''x-ratelimit-remaining'' \<mapsto> 5, ''x-ratelimit-reset'' \<mapsto> 1700003600])
        example_client) = [1700003600000]"
proof -
  let ?h = "[''x-ratelimit-remaining'' \<mapsto> 5, ''x-ratelimit-reset'' \<mapsto> (1700003600::int)]"
  have a: "?h ''x-ratelimit-remaining'' = Some 5" by simp
  have b: "?h ''x-ratelimit-reset'' = Some 1700003600" by simp
  from refresh_sets_limits_and_pauses
         [where h = ?h and now = 1700000000000 and c = example_client, OF a b] a b
  show ?thesis by (simp add: example_defs)
qed

text \<open>
  Claim C6. When the headers are absent, or lack \<open>x-ratelimit-remaining\<close> or
  \<open>x-ratelimit-reset\<close>, \<open>_refresh\<close> writes one warning and changes nothing else:
  \<open>authorized\<close>, \<open>remainingRequests\<close>, \<open>resetAt\<close> and the pending timer keep their
  values and \<open>pause\<close> is not called.
\<close>

theorem refresh_missing_headers_only_warns:
  assumes "hs = None \<or> (\<exists>h. hs = Some h \<and>
             (h ''x-ratelimit-remaining'' = None \<or> h ''x-ratelimit-reset'' = None))"
  shows "refresh now hs c = c\<lparr>logger := logger c @ [(Warn, ClientHeadersNotFound)]\<rparr>
       \<and> isAuthorized (refresh now hs c) = isAuthorized c
       \<and> remainingRequests (refresh now hs c) = remainingRequests c
       \<and> resetAt (refresh now hs c) = resetAt c
       \<and> pauseCalls (refresh now hs c) = pauseCalls c
       \<and> timeouts (refresh now hs c) = timeouts c
       \<and> resumeTimer (refresh now hs c) = resumeTimer c"
  using refresh_missing [OF assms] by (simp add: log_line_def isAuthorized_def)

theorem refresh_missing_headers_only_warns_witness:
  "(Some [''x-ratelimit-remaining'' \<mapsto> (10::int)] = None
      \<or> (\<exists>h. Some [''x-ratelimit-remaining'' \<mapsto> (10::int)] = Some h \<and>
              (h ''x-ratelimit-remaining'' = None \<or> h ''x-ratelimit-reset'' = None)))
   \<and> isAuthorized (refresh 1700000000000 (Some [''x-ratelimit-remaining'' \<mapsto> 10]) example_client)
   \<and> pauseCalls (refresh 1700000000000 (Some [''x-ratelimit-remaining'' \<mapsto> 10]) example_client) = []
   \<and> logger (refresh 1700000000000 (Some [''x-ratelimit-remaining'' \<mapsto> 10]) example_client) =
       [(Warn, ClientHeadersNotFound)]"
proof -
  let ?hs = "Some [''x-ratelimit-remaining'' \<mapsto> (10::int)]"
  have h: "?hs = None \<or> (\<exists>h. ?hs = Some h \<and>
             (h ''x-ratelimit-remaining'' = None \<or> h ''x-ratelimit-reset'' = None))"
    by simp
  from refresh_missing_headers_only_warns [OF h, of 1700000000000 example_client] h
  show ?thesis by (simp add: example_defs isAuthorized_def)
qed

text \<open>The older variant pauses for one minute when the headers are missing.\<close>

lemma refresh_old_missing_pauses:
  "pauseCalls (refresh_old now None c) = pauseCalls c @ [now + 1000 * 60]
   \<and> \<not> isAuthorized (refresh_old now None c)"
  by (simp add: refresh_old_def pause_old_def Let_def setTimeout_def log_line_def
        isAuthorized_def)




section \<open>The queue: order of dispatch\<close>

lemma qlog_fields [simp]:
  "clients (qlog l m q) = clients q"
  "queries (qlog l m q) = queries q"
  "isStopped (qlog l m q) = isStopped q"
  "errorCount (qlog l m q) = errorCount q"
  "errorUrls (qlog l m q) = errorUrls q"
  "maxErrorCountPerRequest (qlog l m q) = maxErrorCountPerRequest q"
  "maxErrorCountInTotal (qlog l m q) = maxErrorCountInTotal q"
  "pendingTicks (qlog l m q) = pendingTicks q"
  "inflight (qlog l m q) = inflight q"
  "qlogger (qlog l m q) = qlogger q @ [(l, m)]"
  by (simp_all add: qlog_def)

lemma push_fields [simp]:
  "clients (push rs q) = clients q"
  "queries (push rs q) = queries q @ rs"
  "isStopped (push rs q) = isStopped q"
  "errorCount (push rs q) = errorCount q"
  "errorUrls (push rs q) = errorUrls q"
  "maxErrorCountPerRequest (push rs q) = maxErrorCountPerRequest q"
  "maxErrorCountInTotal (push rs q) = maxErrorCountInTotal q"
  "pendingTicks (push rs q) = pendingTicks q"
  "inflight (push rs q) = inflight q"
  "qlogger (push rs q) = qlogger q"
  by (simp_all add: push_def)

lemma unshift_fields [simp]:
  "clients (unshift rs q) = clients q"
  "queries (unshift rs q) = rs @ queries q"
  "isStopped (unshift rs q) = isStopped q"
  "errorCount (unshift rs q) = errorCount q"
  "errorUrls (unshift rs q) = errorUrls q"
  "maxErrorCountPerRequest (unshift rs q) = maxErrorCountPerRequest q"
  "maxErrorCountInTotal (unshift rs q) = maxErrorCountInTotal q"
  "pendingTicks (unshift rs q) = pendingTicks q"
  "inflight (unshift rs q) = inflight q"
  "qlogger (unshift rs q) = qlogger q"
  by (simp_all add: unshift_def)

lemma availableClients_push [simp]: "availableClients (push rs q) = availableClients q"
  by (simp add: availableClients_def)

lemma availableClients_unshift [simp]: "availableClients (unshift rs q) = availableClients q"
  by (simp add: availableClients_def)

text \<open>What the loop of a tick leaves untouched.\<close>

lemma dispatch_frame [simp]:
  "isStopped (dispatch is q) = isStopped q"
  "errorCount (dispatch is q) = errorCount q"
  "errorUrls (dispatch is q) = errorUrls q"
  "maxErrorCountPerRequest (dispatch is q) = maxErrorCountPerRequest q"
  "maxErrorCountInTotal (dispatch is q) = maxErrorCountInTotal q"
  "pendingTicks (dispatch is q) = pendingTicks q"
  "qlogger (dispatch is q) = qlogger q"
  "length (clients (dispatch is q)) = length (clients q)"
  by (induction "is" arbitrary: q; simp add: Let_def)+

text \<open>
  The loop takes one request per available client from the tail of the backlog, as long
  as there are requests.
\<close>

lemma dispatch_queries:
  "queries (dispatch is q) = take (length (queries q) - length is) (queries q)"
proof (induction "is" arbitrary: q)
  case Nil
  show ?case by simp
next
  case (Cons i "is")
  show ?case
  proof (cases "queries q = []")
    case True
    then show ?thesis by simp
  next
    case False
    have "take (length (queries q) - Suc (length is)) (butlast (queries q)) =
          take (length (queries q) - Suc (length is)) (queries q)"
      by (simp add: butlast_conv_take min_def)
    with False Cons show ?thesis by (simp add: Let_def)
  qed
qed

lemma dispatch_inflight:
  "inflight (dispatch is q) = inflight q @ zip is (rev (queries q))"
proof (induction "is" arbitrary: q)
  case Nil
  show ?case by simp
next
  case (Cons i "is")
  show ?case
  proof (cases "queries q = []")
    case True
    then show ?thesis by simp
  next
    case False
    then obtain xs x where qs: "queries q = xs @ [x]"
      by (cases "queries q" rule: rev_cases) auto
    with Cons show ?thesis by (simp add: Let_def)
  qed
qed

lemma dispatched_by_dispatch:
  "dispatched_by q (dispatch is q) = take (length is) (rev (queries q))"
  by (simp add: dispatched_by_def dispatch_inflight take_map [symmetric] map_snd_zip_take min_def)

lemma queue_tick_running:
  "\<not> isStopped q \<Longrightarrow> errorCount q < maxErrorCountInTotal q \<Longrightarrow>
   queries q \<noteq> [] \<Longrightarrow> availableClients q \<noteq> [] \<Longrightarrow>
   queue_tick q = dispatch (availableClients q) q"
  by (simp add: queue_tick_def)

lemma queue_tick_dispatched:
  "\<not> isStopped q \<Longrightarrow> errorCount q < maxErrorCountInTotal q \<Longrightarrow>
   queries q \<noteq> [] \<Longrightarrow> availableClients q \<noteq> [] \<Longrightarrow>
   dispatched_by q (queue_tick q) = take (length (availableClients q)) (rev (queries q))"
  by (simp add: queue_tick_running dispatched_by_dispatch)

lemma hd_take_rev: "xs \<noteq> [] \<Longrightarrow> n \<noteq> 0 \<Longrightarrow> hd (take n (rev xs)) = last xs"
  by (cases xs rule: rev_cases; cases n) simp_all

text \<open>
  Claim C5. After \<open>push(a, b)\<close>, a tick of a queue that is running (not stopped, error
  budget not used up) and has an available client pops \<open>b\<close> and hands it to the first
  available client: the requests of the tick are the tail of the backlog in reverse, one
  per available client.
\<close>

theorem push_dispatches_last_pushed_first:
  assumes "\<not> isStopped q" and "errorCount q < maxErrorCountInTotal q"
      and "availableClients q \<noteq> []"
  shows "dispatched_by (push [a, b] q) (queue_tick (push [a, b] q)) =
           take (length (availableClients q)) (b # a # rev (queries q))
       \<and> hd (dispatched_by (push [a, b] q) (queue_tick (push [a, b] q))) = b
       \<and> hd (drop (length (inflight q)) (inflight (queue_tick (push [a, b] q)))) =
           (hd (availableClients q), b)
       \<and> queries (queue_tick (push [a, b] q)) =
           take (length (queries q) + 2 - length (availableClients q)) (queries q @ [a, b])"
proof -
  let ?q = "push [a, b] q"
  have t: "queue_tick ?q = dispatch (availableClients q) ?q"
    using assms by (simp add: queue_tick_def)
  have d: "dispatched_by ?q (queue_tick ?q) =
             take (length (availableClients q)) (b # a # rev (queries q))"
    by (simp add: t dispatched_by_dispatch)
  have i: "drop (length (inflight q)) (inflight (queue_tick ?q)) =
             zip (availableClients q) (b # a # rev (queries q))"
    by (simp add: t dispatch_inflight)
  have s: "queries (queue_tick ?q) =
             take (length (queries q) + 2 - length (availableClients q)) (queries q @ [a, b])"
    by (simp only: t dispatch_queries push_fields length_append) simp
  from assms(3) have h1: "hd (take (length (availableClients q)) (b # a # rev (queries q))) = b"
    by (cases "availableClients q") simp_all
  from assms(3) have h2: "hd (zip (availableClients q) (b # a # rev (queries q))) =
                            (hd (availableClients q), b)"
    by (cases "availableClients q") simp_all
  show ?thesis
    using d i s h1 h2 by simp
qed

theorem push_dispatches_last_pushed_first_witness:
  "\<not> isStopped example_queue
   \<and> errorCount example_queue < maxErrorCountInTotal example_queue
   \<and> availableClients example_queue \<noteq> []
   \<and> hd (dispatched_by (push [request_a, request_b] example_queue)
           (queue_tick (push [request_a, request_b] example_queue))) = request_b
   \<and> queries (queue_tick (push [request_a, request_b] example_queue)) = [request_a]"
proof -
  have h: "\<not> isStopped example_queue"
    "errorCount example_queue < maxErrorCountInTotal example_queue"
    "availableClients example_queue \<noteq> []"
    by (simp_all add: example_defs availableClients_def isAuthorized_def isBusy_def)
  have l: "length (availableClients example_queue) = 1" "queries example_queue = []"
    by (simp_all add: example_defs availableClients_def isAuthorized_def isBusy_def)
  from push_dispatches_last_pushed_first [OF h, of request_a request_b] h l
  show ?thesis by simp
qed

section \<open>The queue: retry, abort and the error counters\<close>

lemma map_of_assign: "map_of (assign k v kvs) = (map_of kvs)(k \<mapsto> v)"
  by (induction kvs) auto

lemma keys_assign: "fst ` set (assign k v kvs) = insert k (fst ` set kvs)"
  by (simp add: dom_map_of_conv_image_fst [symmetric] map_of_assign)

lemma distinct_assign: "distinct (map fst kvs) \<Longrightarrow> distinct (map fst (assign k v kvs))"
  by (induction kvs) (auto simp: keys_assign)

lemma sum_assign:
  "sum_list (map snd (assign k v kvs)) =
     sum_list (map snd kvs) - (case map_of kvs k of None \<Rightarrow> 0 | Some n \<Rightarrow> n) + v"
  by (induction kvs) auto

text \<open>
  The \<open>.catch\<close> handler as one update: the count of the URL goes up by one, from 0 when
  the URL has not failed before, and the request returns to the head of the backlog when
  the new count is below the limit.
\<close>

lemma on_catch_eq:
  "on_catch msg r q =
     (let q3 = q\<lparr>qlogger := qlogger q @ [(Error, QueueError msg)],
                 errorCount := errorCount q + 1,
                 errorUrls := assign (getUrl r) (errorsByUrl q (getUrl r) + 1) (errorUrls q)\<rparr>
      in if errorsByUrl q (getUrl r) + 1 < maxErrorCountPerRequest q
         then q3\<lparr>qlogger := qlogger q3 @ [(Info, QueueRetry (getUrl r))],
                 queries := r # queries q\<rparr>
         else q3\<lparr>qlogger := qlogger q3 @ [(Error, QueueAbort (getUrl r))]\<rparr>)"
  by (simp add: on_catch_def errorsByUrl_def Let_def qlog_def unshift_def map_of_assign
           split: option.splits)

lemma on_catch_counters:
  "errorCount (on_catch msg r q) = errorCount q + 1"
  "errorUrls (on_catch msg r q) = assign (getUrl r) (errorsByUrl q (getUrl r) + 1) (errorUrls q)"
  "maxErrorCountPerRequest (on_catch msg r q) = maxErrorCountPerRequest q"
  "maxErrorCountInTotal (on_catch msg r q) = maxErrorCountInTotal q"
  "isStopped (on_catch msg r q) = isStopped q"
  "clients (on_catch msg r q) = clients q"
  "inflight (on_catch msg r q) = inflight q"
  "pendingTicks (on_catch msg r q) = pendingTicks q"
  by (simp_all add: on_catch_eq Let_def)

lemma on_catch_errorsByUrl:
  "errorsByUrl (on_catch msg r q) (getUrl r) = errorsByUrl q (getUrl r) + 1"
  by (simp add: errorsByUrl_def on_catch_counters map_of_assign)

lemma on_catch_queries:
  "queries (on_catch msg r q) =
     (if errorsByUrl q (getUrl r) + 1 < maxErrorCountPerRequest q
      then r # queries q else queries q)"
  by (simp add: on_catch_eq Let_def)

lemma on_catch_qlogger:
  "qlogger (on_catch msg r q) =
     qlogger q @ [(Error, QueueError msg),
                  if errorsByUrl q (getUrl r) + 1 < maxErrorCountPerRequest q
                  then (Info, QueueRetry (getUrl r)) else (Error, QueueAbort (getUrl r))]"
  by (simp add: on_catch_eq Let_def)

lemma availableClients_on_catch [simp]:
  "availableClients (on_catch msg r q) = availableClients q"
  by (simp add: availableClients_def on_catch_counters)

lemma on_finally_fields [simp]:
  "queries (on_finally q) = queries q"
  "errorCount (on_finally q) = errorCount q"
  "errorUrls (on_finally q) = errorUrls q"
  "qlogger (on_finally q) = qlogger q"
  "maxErrorCountPerRequest (on_finally q) = maxErrorCountPerRequest q"
  by (simp_all add: on_finally_def)

lemma errorsByUrl_frame [simp]:
  "errorsByUrl (q\<lparr>clients := cs, inflight := fl\<rparr>) u = errorsByUrl q u"
  by (simp add: errorsByUrl_def)

lemma complete_rejected:
  "complete now i r (Rejected e) q =
     on_finally (on_catch (message e) r
       (q\<lparr>clients := (clients q)[i := snd (request_catch now (getUrl r) e (clients q ! i))],
          inflight := remove1 (i, r) (inflight q)\<rparr>))"
  by (simp add: complete_def request_catch_def Let_def)

text \<open>
  Claim C1, as stated, has a request that is inserted at the head dispatched next. A
  tick pops the tail: after \<open>unshift(a, b)\<close> on an empty backlog the first request
  dispatched is \<open>b\<close>, and a request that failed and went back to the head while \<open>b\<close>
  was enqueued is dispatched after \<open>b\<close>.
\<close>

theorem head_is_not_dispatched_next:
  "hd (dispatched_by (unshift [request_a, request_b] example_queue)
                     (queue_tick (unshift [request_a, request_b] example_queue))) \<noteq> request_a
   \<and> queries (on_catch ''Error'' request_a (push [request_b] example_queue)) =
       [request_a, request_b]
   \<and> hd (dispatched_by (on_catch ''Error'' request_a (push [request_b] example_queue))
           (queue_tick (on_catch ''Error'' request_a (push [request_b] example_queue)))) \<noteq>
       request_a"
  by (simp add: example_defs queue_tick_def availableClients_def isAuthorized_def isBusy_def
        dispatched_by_def request_def build_config_def getUrl_def getParams_def Let_def
        on_catch_eq errorsByUrl_def)

text \<open>
  Claim C1, amended. A request inserted at the head is dispatched last: a tick of a
  running queue with an available client hands out the backlog from its tail, so after
  \<open>unshift\<close> the requests that were enqueued before come first and the inserted
  ones after them, in reverse; \<open>unshift(a, b)\<close> on an empty backlog followed by a
  dispatch yields \<open>b\<close> first. A request that fails with a count below the limit is
  inserted again at the head, and the next tick starts with the tail of the requests
  that were enqueued at that moment.
\<close>

theorem unshift_is_dispatched_last:
  "(\<not> isStopped q \<and> errorCount q < maxErrorCountInTotal q \<and> availableClients q \<noteq> [] \<longrightarrow>
      (rs @ queries q \<noteq> [] \<longrightarrow>
         dispatched_by (unshift rs q) (queue_tick (unshift rs q)) =
           take (length (availableClients q)) (rev (queries q) @ rev rs))
    \<and> (queries q \<noteq> [] \<longrightarrow>
         hd (dispatched_by (unshift rs q) (queue_tick (unshift rs q))) = last (queries q))
    \<and> (queries q = [] \<longrightarrow>
         hd (dispatched_by (unshift [a, b] q) (queue_tick (unshift [a, b] q))) = b))
   \<and> (errorsByUrl (on_catch msg r q) (getUrl r) < maxErrorCountPerRequest q \<longrightarrow>
        queries (on_catch msg r q) = r # queries q
      \<and> (\<not> isStopped q \<and> errorCount q + 1 < maxErrorCountInTotal q \<and>
          availableClients q \<noteq> [] \<and> queries q \<noteq> [] \<longrightarrow>
            hd (dispatched_by (on_catch msg r q) (queue_tick (on_catch msg r q))) =
              last (queries q)))"
proof (intro conjI impI)
  assume run: "\<not> isStopped q \<and> errorCount q < maxErrorCountInTotal q \<and> availableClients q \<noteq> []"
  { assume "rs @ queries q \<noteq> []"
    with run show "dispatched_by (unshift rs q) (queue_tick (unshift rs q)) =
                     take (length (availableClients q)) (rev (queries q) @ rev rs)"
      using queue_tick_dispatched [of "unshift rs q"] by simp }
  { assume ne: "queries q \<noteq> []"
    with run have "dispatched_by (unshift rs q) (queue_tick (unshift rs q)) =
                     take (length (availableClients q)) (rev (rs @ queries q))"
      using queue_tick_dispatched [of "unshift rs q"] by simp
    with run ne show "hd (dispatched_by (unshift rs q) (queue_tick (unshift rs q))) = last (queries q)"
      using hd_take_rev [of "rs @ queries q" "length (availableClients q)"] by simp }
  { assume "queries q = []"
    with run have "dispatched_by (unshift [a, b] q) (queue_tick (unshift [a, b] q)) =
                     take (length (availableClients q)) (rev ([a, b] @ queries q))"
      using queue_tick_dispatched [of "unshift [a, b] q"] by simp
    with run \<open>queries q = []\<close>
    show "hd (dispatched_by (unshift [a, b] q) (queue_tick (unshift [a, b] q))) = b"
      using hd_take_rev [of "[a, b]" "length (availableClients q)"] by simp }
next
  assume below: "errorsByUrl (on_catch msg r q) (getUrl r) < maxErrorCountPerRequest q"
  then show requeued: "queries (on_catch msg r q) = r # queries q"
    by (simp add: on_catch_errorsByUrl on_catch_queries)
  assume run: "\<not> isStopped q \<and> errorCount q + 1 < maxErrorCountInTotal q \<and>
               availableClients q \<noteq> [] \<and> queries q \<noteq> []"
  then have "dispatched_by (on_catch msg r q) (queue_tick (on_catch msg r q)) =
               take (length (availableClients q)) (rev (r # queries q))"
    using queue_tick_dispatched [of "on_catch msg r q"] requeued by (simp add: on_catch_counters)
  with run show "hd (dispatched_by (on_catch msg r q) (queue_tick (on_catch msg r q))) =
                   last (queries q)"
    using hd_take_rev [of "r # queries q" "length (availableClients q)"] by simp
qed

theorem unshift_is_dispatched_last_witness:
  "\<not> isStopped (push [request_b] example_queue)
   \<and> errorCount (push [request_b] example_queue) + 1
       < maxErrorCountInTotal (push [request_b] example_queue)
   \<and> availableClients (push [request_b] example_queue) \<noteq> []
   \<and> queries (push [request_b] example_queue) \<noteq> []
   \<and> hd (dispatched_by (unshift [request_a] (push [request_b] example_queue))
           (queue_tick (unshift [request_a] (push [request_b] example_queue)))) = request_b
   \<and> errorsByUrl (on_catch ''Error'' request_a (push [request_b] example_queue))
        (getUrl request_a) < maxErrorCountPerRequest (push [request_b] example_queue)
   \<and> queries (on_catch ''Error'' request_a (push [request_b] example_queue)) =
        [request_a, request_b]
   \<and> hd (dispatched_by (on_catch ''Error'' request_a (push [request_b] example_queue))
           (queue_tick (on_catch ''Error'' request_a (push [request_b] example_queue)))) =
        request_b"
proof -
  let ?q = "push [request_b] example_queue"
  have h: "\<not> isStopped ?q" "errorCount ?q + 1 < maxErrorCountInTotal ?q"
    "errorCount ?q < maxErrorCountInTotal ?q"
    "availableClients ?q \<noteq> []" "queries ?q \<noteq> []" "last (queries ?q) = request_b"
    "queries ?q = [request_b]"
    by (simp_all add: example_defs availableClients_def isAuthorized_def isBusy_def)
  have e: "errorsByUrl (on_catch ''Error'' request_a ?q) (getUrl request_a)
             < maxErrorCountPerRequest ?q"
    unfolding on_catch_errorsByUrl by (simp add: errorsByUrl_def example_defs)
  from unshift_is_dispatched_last [of ?q "[request_a]" request_a request_b "''Error''" request_a]
       h e
  show ?thesis by simp
qed

text \<open>
  Claim C10. The failures are counted per URL: the failure of any request with the URL
  of \<open>r\<close> moves the counters as the failure of \<open>r\<close> does. So when the URL of \<open>r\<close> has
  \<open>maxPerRequest - 1\<close> failures on record, from whatever requests, the first failure
  of \<open>r\<close> brings the count to the limit and \<open>r\<close> is aborted: the abort is logged and
  \<open>r\<close> does not return to the backlog.
\<close>

theorem shared_url_budget_aborts:
  assumes "errorsByUrl q (getUrl r) = maxErrorCountPerRequest q - 1"
  shows "queries (complete now i r (Rejected e) q) = queries q
       \<and> errorsByUrl (complete now i r (Rejected e) q) (getUrl r) = maxErrorCountPerRequest q
       \<and> last (qlogger (complete now i r (Rejected e) q)) = (Error, QueueAbort (getUrl r))
       \<and> (\<forall>r'. getUrl r' = getUrl r \<longrightarrow>
             errorUrls (complete now i r' (Rejected e) q) =
             errorUrls (complete now i r (Rejected e) q))"
proof -
  have f: "errorsByUrl (on_finally q') u = errorsByUrl q' u" for q' u
    by (simp add: errorsByUrl_def)
  show ?thesis
    using assms
    by (simp add: complete_rejected on_catch_queries on_catch_counters on_catch_qlogger
          on_catch_errorsByUrl f)
qed

theorem shared_url_budget_aborts_witness:
  "errorsByUrl (on_catch ''Error'' request_a (new_queue [example_client] 2 2000))
      (getUrl request_a_post) =
     maxErrorCountPerRequest (on_catch ''Error'' request_a (new_queue [example_client] 2 2000)) - 1
   \<and> request_a_post \<noteq> request_a
   \<and> queries (complete 0 0 request_a_post (Rejected network_error)
                (on_catch ''Error'' request_a (new_queue [example_client] 2 2000))) = [request_a]
   \<and> last (qlogger (complete 0 0 request_a_post (Rejected network_error)
                (on_catch ''Error'' request_a (new_queue [example_client] 2 2000)))) =
       (Error, QueueAbort (getUrl request_a_post))"
proof -
  let ?q = "on_catch ''Error'' request_a (new_queue [example_client] 2 2000)"
  have u: "getUrl request_a_post = getUrl request_a"
    by (simp add: request_a_post_def getUrl_def)
  have h: "errorsByUrl ?q (getUrl request_a_post) = maxErrorCountPerRequest ?q - 1"
    unfolding u on_catch_errorsByUrl on_catch_counters
    by (simp add: errorsByUrl_def new_queue_def)
  have n: "request_a_post \<noteq> request_a"
    by (simp add: request_a_post_def example_defs empty_params_def)
  have s: "queries ?q = [request_a]"
    unfolding on_catch_queries by (simp add: errorsByUrl_def new_queue_def)
  from shared_url_budget_aborts [OF h, of 0 0 network_error] h n s show ?thesis by simp
qed

section \<open>The queue: the total error budget\<close>

text \<open>
  The error budget never comes back: no step lowers \<open>errorCount\<close> or changes the limit.
\<close>

lemma queue_tick_budget [simp]:
  "errorCount (queue_tick q) = errorCount q"
  "maxErrorCountInTotal (queue_tick q) = maxErrorCountInTotal q"
  by (simp_all add: queue_tick_def)

lemma queue_step_budget:
  "queue_step q q' \<Longrightarrow>
   maxErrorCountInTotal q' = maxErrorCountInTotal q \<and> errorCount q \<le> errorCount q'"
proof (induction rule: queue_step.induct)
  case (s_tick d q q')
  then show ?case by (auto simp: fire_tick_def split: if_splits)
next
  case (s_complete i r q now outcome)
  show ?case
    by (cases outcome)
       (simp_all add: complete_def Let_def split_beta on_finally_def on_then_def on_catch_def
          qlog_def unshift_def request_then_def request_catch_def split: option.splits)
qed (simp_all add: start_def process_def stop_def)

lemma queue_steps_budget:
  "queue_step\<^sup>*\<^sup>* q q' \<Longrightarrow>
   maxErrorCountInTotal q' = maxErrorCountInTotal q \<and> errorCount q \<le> errorCount q'"
  by (induction rule: rtranclp_induct) (auto dest: queue_step_budget)

lemma start_exhausted:
  assumes "maxErrorCountInTotal q \<le> errorCount q"
  shows "dispatched_by q (start q) = []" and "queries (start q) = queries q"
    and "\<not> isStopped q \<Longrightarrow>
         start q = q\<lparr>qlogger := qlogger q @ [(Info, QueueStart), (Error, QueueErrorCountTooBig)]\<rparr>"
  using assms by (simp_all add: start_def process_def queue_tick_def qlog_def dispatched_by_def)

text \<open>
  Claim C7, as stated, lets a later \<open>start\<close> resume the processing after the error
  budget has ended the loop. In the example the request is in the backlog again, the
  client is available and the queue is not stopped, and \<open>start\<close> dispatches nothing.
\<close>

theorem start_after_budget_does_not_resume:
  "queries exhausted_queue = [request_a]
   \<and> availableClients exhausted_queue = [0]
   \<and> \<not> isStopped exhausted_queue
   \<and> dispatched_by exhausted_queue (start exhausted_queue) = []
   \<and> queries (start exhausted_queue) = [request_a]"
  by (simp add: exhausted_queue_def start_def process_def queue_tick_def qlog_def push_def
        example_defs availableClients_def isAuthorized_def isBusy_def Let_def complete_rejected
        on_catch_eq errorsByUrl_def on_finally_def request_def request_catch_def refresh_def
        log_line_def network_error_def dispatched_by_def getUrl_def getParams_def)

text \<open>
  Claim C7, amended. At a tick with \<open>errorCount \<ge> maxTotal\<close> and \<open>stopped\<close> false, the
  loop writes the error line and ends: no request is popped or dispatched, no further
  tick is scheduled, and \<open>stopped\<close> stays false. A later \<open>start\<close> is not held back by
  the flag, but the processing does not resume: whatever happens in between, \<open>start\<close>
  dispatches nothing, and while the queue is not stopped it reports the abort again.
\<close>

theorem error_budget_ends_loop:
  assumes "\<not> isStopped q" and "errorCount q \<ge> maxErrorCountInTotal q"
  shows "queue_tick q = q\<lparr>qlogger := qlogger q @ [(Error, QueueErrorCountTooBig)]\<rparr>
       \<and> queries (queue_tick q) = queries q
       \<and> dispatched_by q (queue_tick q) = []
       \<and> pendingTicks (queue_tick q) = pendingTicks q
       \<and> \<not> isStopped (queue_tick q)
       \<and> (\<forall>q'. queue_step\<^sup>*\<^sup>* (queue_tick q) q' \<longrightarrow>
             dispatched_by q' (start q') = [] \<and> queries (start q') = queries q' \<and>
             (\<not> isStopped q' \<longrightarrow>
                start q' = q'\<lparr>qlogger := qlogger q' @
                                [(Info, QueueStart), (Error, QueueErrorCountTooBig)]\<rparr>))"
proof -
  have now: "queue_tick q = q\<lparr>qlogger := qlogger q @ [(Error, QueueErrorCountTooBig)]\<rparr>"
    using assms by (simp add: queue_tick_def qlog_def)
  have later: "maxErrorCountInTotal q' \<le> errorCount q'" if "queue_step\<^sup>*\<^sup>* (queue_tick q) q'" for q'
    using queue_steps_budget [OF that] assms(2) by simp
  show ?thesis
    using assms(1) start_exhausted [OF later]
    by (simp add: now dispatched_by_def)
qed

theorem error_budget_ends_loop_witness:
  "\<not> isStopped ((new_queue [] 5 1000)\<lparr>errorCount := 1000\<rparr>)
   \<and> maxErrorCountInTotal ((new_queue [] 5 1000)\<lparr>errorCount := 1000\<rparr>)
       \<le> errorCount ((new_queue [] 5 1000)\<lparr>errorCount := 1000\<rparr>)
   \<and> qlogger (queue_tick ((new_queue [] 5 1000)\<lparr>errorCount := 1000\<rparr>)) =
       [(Error, QueueErrorCountTooBig)]
   \<and> pendingTicks (queue_tick ((new_queue [] 5 1000)\<lparr>errorCount := 1000\<rparr>)) = []
   \<and> queue_step\<^sup>*\<^sup>* (queue_tick ((new_queue [] 5 1000)\<lparr>errorCount := 1000\<rparr>))
        (push [request_a] (queue_tick ((new_queue [] 5 1000)\<lparr>errorCount := 1000\<rparr>)))
   \<and> queries (start (push [request_a] (queue_tick ((new_queue [] 5 1000)\<lparr>errorCount := 1000\<rparr>)))) =
       [request_a]"
proof -
  let ?q = "(new_queue [] 5 1000)\<lparr>errorCount := 1000\<rparr>"
  have h: "\<not> isStopped ?q" "maxErrorCountInTotal ?q \<le> errorCount ?q"
    by (simp_all add: new_queue_def)
  have s: "queue_step\<^sup>*\<^sup>* (queue_tick ?q) (push [request_a] (queue_tick ?q))"
    by (intro r_into_rtranclp s_push)
  have p: "queries (push [request_a] (queue_tick ?q)) = [request_a]"
    by (simp add: queue_tick_def qlog_def new_queue_def)
  from error_budget_ends_loop [OF h] h s p show ?thesis by (simp add: new_queue_def)
qed

section \<open>The queue: the counters in every reachable state\<close>

lemma on_catch_inv: "counters_inv q \<Longrightarrow> counters_inv (on_catch msg r q)"
  by (auto simp: counters_inv_def on_catch_counters distinct_assign sum_assign errorsByUrl_def
           split: option.splits)

lemma on_then_inv: "counters_inv q \<Longrightarrow> counters_inv (on_then res r q)"
  by (simp add: on_then_def on_catch_inv split: option.splits)

lemma on_finally_inv: "counters_inv (on_finally q) = counters_inv q"
  by (simp add: on_finally_def counters_inv_def)

lemma complete_inv: "counters_inv q \<Longrightarrow> counters_inv (complete now i r outcome q)"
proof -
  assume inv: "counters_inv q"
  have upd: "\<And>cs fl. counters_inv (q\<lparr>clients := cs, inflight := fl\<rparr>)"
    using inv by (simp add: counters_inv_def)
  show ?thesis
    by (cases outcome)
       (simp_all add: complete_def Let_def split_beta on_finally_inv on_then_inv on_catch_inv upd
          request_then_def request_catch_def)
qed

lemma queue_tick_inv: "counters_inv (queue_tick q) = counters_inv q"
  by (simp add: queue_tick_def counters_inv_def)

lemma queue_step_inv: "queue_step q q' \<Longrightarrow> counters_inv q \<Longrightarrow> counters_inv q'"
proof (induction rule: queue_step.induct)
  case (s_push q rs)
  then show ?case by (simp add: counters_inv_def)
next
  case (s_unshift q rs)
  then show ?case by (simp add: counters_inv_def)
next
  case (s_start q)
  then show ?case by (simp add: start_def process_def queue_tick_inv) (simp add: counters_inv_def)
next
  case (s_stop q)
  then show ?case by (simp add: counters_inv_def stop_def)
next
  case (s_tick d q q')
  then show ?case
    by (auto simp: fire_tick_def queue_tick_inv split: if_splits) (simp add: counters_inv_def)
next
  case (s_complete i r q now outcome)
  then show ?case by (simp add: complete_inv)
next
  case (s_clients cs q)
  then show ?case by (simp add: counters_inv_def)
qed

lemma reachable_inv: "reachable q \<Longrightarrow> counters_inv q"
proof (induction rule: reachable.induct)
  case (r_new cs maxPerRequest maxInTotal)
  show ?case by (simp add: counters_inv_def new_queue_def)
next
  case (r_step q q')
  then show ?case by (simp add: queue_step_inv)
qed

text \<open>With distinct keys, the sum of the values is the sum over the keys.\<close>

lemma sum_list_distinct_keys:
  "distinct (map fst kvs) \<Longrightarrow>
   sum_list (map snd kvs) = (\<Sum>u \<in> dom (map_of kvs). the (map_of kvs u))"
proof (induction kvs)
  case Nil
  show ?case by simp
next
  case (Cons kv kvs)
  obtain k v where kv: "kv = (k, v)" by (cases kv)
  from Cons.prems kv have k: "k \<notin> dom (map_of kvs)" and d: "distinct (map fst kvs)"
    by (auto simp: dom_map_of_conv_image_fst)
  have "(\<Sum>u \<in> dom (map_of (kv # kvs)). the (map_of (kv # kvs) u)) =
        (\<Sum>u \<in> insert k (dom (map_of kvs)). the (((map_of kvs)(k \<mapsto> v)) u))"
    by (simp add: kv)
  also have "\<dots> = v + (\<Sum>u \<in> dom (map_of kvs). the (((map_of kvs)(k \<mapsto> v)) u))"
    using k by (simp add: finite_dom_map_of)
  also have "(\<Sum>u \<in> dom (map_of kvs). the (((map_of kvs)(k \<mapsto> v)) u)) =
             (\<Sum>u \<in> dom (map_of kvs). the (map_of kvs u))"
    using k by (intro sum.cong) auto
  finally show ?case using Cons.IH [OF d] by (simp add: kv)
qed

lemma foldl_count:
  "foldl (\<lambda>acc u. case m u of Some n \<Rightarrow> if n \<ge> b then acc + 1 else acc | None \<Rightarrow> acc) a us =
     a + int (length (filter (\<lambda>u. \<exists>n. m u = Some n \<and> b \<le> n) us))"
  by (induction us arbitrary: a) (auto split: option.splits)

lemma getRequestFailCount_card:
  assumes "distinct (map fst (errorUrls q))"
  shows "getRequestFailCount q =
           int (card {u. \<exists>n. map_of (errorUrls q) u = Some n \<and> maxErrorCountPerRequest q \<le> n})"
proof -
  let ?P = "\<lambda>u. \<exists>n. map_of (errorUrls q) u = Some n \<and> maxErrorCountPerRequest q \<le> n"
  have "{u. ?P u} \<inter> set (map fst (errorUrls q)) = {u. ?P u}"
    by (auto dest: map_of_SomeD simp: rev_image_eqI)
  then have "length (filter ?P (map fst (errorUrls q))) = card {u. ?P u}"
    using distinct_length_filter [OF assms, of ?P] by simp
  then show ?thesis by (simp add: getRequestFailCount_def foldl_count)
qed

text \<open>
  Claim C8. In every state that a queue reaches through \<open>push\<close>, \<open>unshift\<close>, \<open>start\<close>,
  \<open>stop\<close>, its ticks and the handlers of its requests, \<open>errorCount\<close> is the sum of
  the counts of all URLs in \<open>errorUrls\<close>, and \<open>getRequestFailCount()\<close> is the number
  of URLs whose count has reached \<open>maxPerRequest\<close>.
\<close>

theorem error_counters_agree:
  assumes "reachable q"
  shows "errorCount q = (\<Sum>u \<in> dom (map_of (errorUrls q)). the (map_of (errorUrls q) u))
       \<and> getRequestFailCount q =
           int (card {u. \<exists>n. map_of (errorUrls q) u = Some n \<and> maxErrorCountPerRequest q \<le> n})"
  using reachable_inv [OF assms]
  by (simp add: counters_inv_def sum_list_distinct_keys getRequestFailCount_card)

theorem error_counters_agree_witness:
  "reachable (complete 0 0 request_a (Rejected network_error)
       (start (push [request_a] (new_queue [example_client] 1 1000))))
   \<and> errorCount (complete 0 0 request_a (Rejected network_error)
       (start (push [request_a] (new_queue [example_client] 1 1000)))) = 1
   \<and> getRequestFailCount (complete 0 0 request_a (Rejected network_error)
       (start (push [request_a] (new_queue [example_client] 1 1000)))) = 1"
proof -
  let ?q1 = "start (push [request_a] (new_queue [example_client] 1 1000))"
  let ?q2 = "complete 0 0 request_a (Rejected network_error) ?q1"
  have i: "(0, request_a) \<in> set (inflight ?q1)"
    by (simp add: start_def process_def qlog_def push_def example_defs queue_tick_def
          availableClients_def isAuthorized_def isBusy_def Let_def)
  have r: "reachable ?q2"
    by (intro r_step [OF _ s_complete] r_step [OF _ s_start] r_step [OF _ s_push] r_new i)
  have u: "errorUrls ?q2 = [(getUrl request_a, 1)]" "maxErrorCountPerRequest ?q2 = 1"
    by (simp_all add: complete_rejected on_catch_counters errorsByUrl_def start_def process_def
          queue_tick_def qlog_def push_def new_queue_def)
  have s: "{u. \<exists>n. (if u = getUrl request_a then Some (1::int) else None) = Some n \<and> 1 \<le> n} =
           {getUrl request_a}"
    by auto
  from error_counters_agree [OF r] r u s show ?thesis by (simp add: dom_def)
qed

end
